theory Spec2Isabelle
  imports Complex_Main
begin

section \<open>Data model of \<^verbatim>\<open>translate_V2.py\<close>\<close>

text \<open>
  A Python \<^verbatim>\<open>str\<close> is a sequence of Unicode code points; \<^verbatim>\<open>len\<close> counts code points
  and the regular expression of the source, the character class from U+4E00 to U+9FFF,
  tests code points. A string is therefore a
  list of code points (natural numbers), not a list of bytes.
\<close>

type_synonym pystr = "nat list"

text \<open>Grid coordinates \<^verbatim>\<open>(row, col)\<close>, 1-indexed as in openpyxl.\<close>

type_synonym coord = "nat \<times> nat"

text \<open>
  What \<^verbatim>\<open>cell.value\<close> can hold. The code only asks whether the value is truthy and whether
  it is a \<^verbatim>\<open>str\<close>.
\<close>

datatype cell_value = Text pystr | Number int | Boolean bool | Blank

fun truthy :: "cell_value \<Rightarrow> bool" where
  "truthy (Text s) = (s \<noteq> [])"
| "truthy (Number n) = (n \<noteq> 0)"
| "truthy (Boolean b) = b"
| "truthy Blank = False"

text \<open>
  \<^verbatim>\<open>openpyxl.styles.Alignment(wrapText=..., vertical=...)\<close>: the two attributes the code
  sets; an attribute that is not passed to the constructor is \<^verbatim>\<open>None\<close>.
\<close>

datatype alignment = Alignment (wrapText: "bool option") (vertical: "string option")

record cell =
  cvalue :: cell_value
  calignment :: alignment

text \<open>
  \<^verbatim>\<open>merged_range.min_row\<close>, \<^verbatim>\<open>min_col\<close>, \<^verbatim>\<open>max_row\<close>, \<^verbatim>\<open>max_col\<close> of one entry of
  \<^verbatim>\<open>sheet.merged_cells.ranges\<close>.
\<close>

record merged_range =
  min_row :: nat
  min_col :: nat
  max_row :: nat
  max_col :: nat

text \<open>
  A worksheet: \<^verbatim>\<open>sheet.cell(row, column)\<close> (which creates an empty cell where none is
  stored, so the grid is a total function), \<^verbatim>\<open>sheet.max_row\<close>, \<^verbatim>\<open>sheet.max_column\<close>,
  \<^verbatim>\<open>list(sheet.merged_cells.ranges)\<close>, and \<^verbatim>\<open>sheet.column_dimensions[letter].width\<close>
  keyed by the column index (\<^verbatim>\<open>get_column_letter\<close> is injective).
\<close>

record sheet =
  cells :: "coord \<Rightarrow> cell"
  sheet_max_row :: nat
  sheet_max_column :: nat
  merged_ranges :: "merged_range list"
  column_width :: "nat \<Rightarrow> real"

section \<open>Merged regions: \<^verbatim>\<open>merged_cells\<close> and \<^verbatim>\<open>merged_master_cells\<close>\<close>

text \<open>
  The two nested \<^verbatim>\<open>for\<close> loops over
  \<^verbatim>\<open>range(min_row, max_row + 1)\<close> and \<^verbatim>\<open>range(min_col, max_col + 1)\<close> enumerate the
  coordinates of one rectangle in row-major order.
\<close>

definition range_coords :: "merged_range \<Rightarrow> coord list" where
  "range_coords m =
     concat (map (\<lambda>row. map (\<lambda>col. (row, col)) [min_col m..<Suc (max_col m)])
                 [min_row m..<Suc (max_row m)])"

text \<open>Lines 75-79: the set of all coordinates of all merged ranges.\<close>

definition add_range_cells :: "coord set \<Rightarrow> merged_range \<Rightarrow> coord set" where
  "add_range_cells acc m = foldl (\<lambda>acc x. insert x acc) acc (range_coords m)"

definition merged_cells :: "merged_range list \<Rightarrow> coord set" where
  "merged_cells rs = foldl add_range_cells {} rs"

text \<open>
  Lines 82-87: the dictionary from each coordinate of a range to the range's master cell.
  The source stores the cell object \<^verbatim>\<open>sheet.cell(min_row, min_col)\<close>; it is represented
  here by its coordinate \<^verbatim>\<open>(cell.row, cell.column)\<close>, and the object is read back from the
  grid at that coordinate.
\<close>

definition master_of_range :: "merged_range \<Rightarrow> coord" where
  "master_of_range m = (min_row m, min_col m)"

definition add_range_master :: "(coord \<rightharpoonup> coord) \<Rightarrow> merged_range \<Rightarrow> coord \<rightharpoonup> coord" where
  "add_range_master acc m =
     foldl (\<lambda>acc x. acc(x \<mapsto> master_of_range m)) acc (range_coords m)"

definition merged_master_cells :: "merged_range list \<Rightarrow> coord \<rightharpoonup> coord" where
  "merged_master_cells rs = foldl add_range_master Map.empty rs"

text \<open>
  Lines 93-103 (and 211-219): which cell a visited coordinate works on. A coordinate of a
  merged range is skipped unless it is the coordinate of its own master cell; the
  \<^verbatim>\<open>else: continue\<close> of a covered coordinate without dictionary entry is kept as a separate
  outcome.
\<close>

datatype resolution = Proceed coord | Skip_non_master | Skip_no_entry

definition resolve :: "coord set \<Rightarrow> (coord \<rightharpoonup> coord) \<Rightarrow> coord \<Rightarrow> resolution" where
  "resolve mc mm x =
     (if x \<in> mc then
        (case mm x of
           Some m \<Rightarrow> if fst x \<noteq> fst m \<or> snd x \<noteq> snd m then Skip_non_master else Proceed m
         | None \<Rightarrow> Skip_no_entry)
      else Proceed x)"

text \<open>Two ranges overlap when their rectangles share a coordinate.\<close>

definition disjoint_ranges :: "merged_range \<Rightarrow> merged_range \<Rightarrow> bool" where
  "disjoint_ranges a b = (set (range_coords a) \<inter> set (range_coords b) = {})"

fun non_overlapping :: "merged_range list \<Rightarrow> bool" where
  "non_overlapping [] = True"
| "non_overlapping (r # rs) = (list_all (disjoint_ranges r) rs \<and> non_overlapping rs)"

section \<open>Strings\<close>

text \<open>
  \<^verbatim>\<open>str.strip()\<close> without argument removes the leading and trailing code points for which
  \<^verbatim>\<open>str.isspace\<close> holds: U+0009 to U+000D, U+001C to U+0020, U+0085, U+00A0, U+1680,
  U+2000 to U+200A, U+2028, U+2029, U+202F, U+205F and U+3000.
\<close>

definition isspace :: "nat \<Rightarrow> bool" where
  "isspace c =
     ((9 \<le> c \<and> c \<le> 13) \<or> (28 \<le> c \<and> c \<le> 32) \<or> c = 133 \<or> c = 160 \<or> c = 5760 \<or>
      (8192 \<le> c \<and> c \<le> 8202) \<or> c = 8232 \<or> c = 8233 \<or> c = 8239 \<or> c = 8287 \<or> c = 12288)"

definition strip :: "pystr \<Rightarrow> pystr" where
  "strip s = rev (dropWhile isspace (rev (dropWhile isspace s)))"

text \<open>
  \<^verbatim>\<open>re.search\<close> for one code point of the class U+4E00 to U+9FFF (19968 to 40959).
\<close>

definition has_cjk :: "pystr \<Rightarrow> bool" where
  "has_cjk s = list_ex (\<lambda>c. 19968 \<le> c \<and> c \<le> 40959) s"

text \<open>\<^verbatim>\<open>value.split('\n')\<close>: the segments between line feeds (code point 10), never empty.\<close>

fun split_lines :: "pystr \<Rightarrow> pystr list" where
  "split_lines [] = [[]]"
| "split_lines (c # cs) =
     (if c = 10 then [] # split_lines cs
      else (c # hd (split_lines cs)) # tl (split_lines cs))"

text \<open>\<^verbatim>\<open>max(len(line) for line in cell.value.split('\n'))\<close>.\<close>

definition cell_length :: "pystr \<Rightarrow> nat" where
  "cell_length s = foldl max 0 (map length (split_lines s))"

section \<open>The translation cache and \<^verbatim>\<open>translate_text\<close>\<close>

text \<open>
  The external translator, for the fixed \<^verbatim>\<open>src_lang\<close> and \<^verbatim>\<open>tgt_lang\<close> of a run: the
  text of the translation, or \<open>None\<close> when \<^verbatim>\<open>translator.translate\<close> (or reading
  \<^verbatim>\<open>translated.text\<close>) raises.
\<close>

type_synonym translator = "pystr \<Rightarrow> pystr option"

text \<open>
  The observable effects of a run besides the workbook: each call of the external
  translator, each printed translation failure and each assignment to \<^verbatim>\<open>cell.value\<close>,
  in order of occurrence, tagged with the sheet name and the loop coordinate
  \<^verbatim>\<open>(row, col)\<close> being visited. \<^verbatim>\<open>time.sleep\<close> leaves no trace.
\<close>

datatype event = Translator_call pystr | Failure_printed pystr | Value_assigned

type_synonym tag = "string \<times> coord"

record run_state =
  translation_cache :: "pystr \<rightharpoonup> pystr"
  log :: "(tag \<times> event) list"

definition initial_state :: run_state where
  "initial_state = \<lparr>translation_cache = Map.empty, log = []\<rparr>"

text \<open>
  Lines 37-64. The \<^verbatim>\<open>except\<close> branch returns the variable \<^verbatim>\<open>text\<close>, which line 43 has
  rebound to the stripped text.
\<close>

fun translate_text :: "translator \<Rightarrow> tag \<Rightarrow> cell_value \<Rightarrow> run_state \<Rightarrow> cell_value \<times> run_state" where
  "translate_text tr tg (Text text0) st =
     (if text0 = [] then (Text text0, st)
      else
        let text = strip text0 in
        (case translation_cache st text of
           Some cached \<Rightarrow> (Text cached, st)
         | None \<Rightarrow>
             (case tr text of
                Some translated \<Rightarrow>
                  let result = translated @ [10] @ text in
                  (Text result,
                   st\<lparr>translation_cache := (translation_cache st)(text \<mapsto> result),
                      log := log st @ [(tg, Translator_call text)]\<rparr>)
              | None \<Rightarrow>
                  (Text text,
                   st\<lparr>log := log st @ [(tg, Translator_call text), (tg, Failure_printed text)]\<rparr>))))"
| "translate_text tr tg v st = (v, st)"

section \<open>The cell traversal\<close>

text \<open>
  Lines 106-108 (and 221-223): \<^verbatim>\<open>cell.value and isinstance(cell.value, str)\<close> and a match
  of the regular expression.
\<close>

fun qualifies :: "cell_value \<Rightarrow> bool" where
  "qualifies (Text s) = (s \<noteq> [] \<and> has_cjk s)"
| "qualifies v = False"

definition wrap_top :: alignment where
  "wrap_top = Alignment (Some True) (Some ''top'')"

definition wrap_only :: alignment where
  "wrap_only = Alignment (Some True) None"

text \<open>
  Lines 105-122, the body of \<^verbatim>\<open>translate_excel_sheets\<close> for the resolved cell. No exception
  leaves \<^verbatim>\<open>translate_text\<close>, so the assignments of lines 112 and 115 always follow the call
  (assigning to \<^verbatim>\<open>cell.value\<close> is taken to store the string as it is).
\<close>

definition translate_cell :: "translator \<Rightarrow> tag \<Rightarrow> cell \<Rightarrow> run_state \<Rightarrow> cell \<times> run_state" where
  "translate_cell tr tg c st =
     (if qualifies (cvalue c) then
        let (translated_content, st') = translate_text tr tg (cvalue c) st in
        (c\<lparr>cvalue := translated_content, calignment := wrap_top\<rparr>,
         st'\<lparr>log := log st' @ [(tg, Value_assigned)]\<rparr>)
      else (c, st))"

text \<open>Lines 221-241, the body of \<^verbatim>\<open>translate_selected_sheets\<close> for the resolved cell.\<close>

definition translate_cell_selected ::
  "translator \<Rightarrow> tag \<Rightarrow> cell \<Rightarrow> run_state \<Rightarrow> cell \<times> run_state" where
  "translate_cell_selected tr tg c st =
     (case cvalue c of
        Text v \<Rightarrow>
          if v \<noteq> [] \<and> has_cjk v then
            let text = strip v in
            (case translation_cache st text of
               Some cached \<Rightarrow>
                 (c\<lparr>cvalue := Text cached\<rparr>, st\<lparr>log := log st @ [(tg, Value_assigned)]\<rparr>)
             | None \<Rightarrow>
                 (case tr text of
                    Some translated \<Rightarrow>
                      let result = translated @ [10] @ text in
                      (c\<lparr>cvalue := Text result, calignment := wrap_only\<rparr>,
                       st\<lparr>translation_cache := (translation_cache st)(text \<mapsto> result),
                          log := log st @ [(tg, Translator_call text), (tg, Value_assigned)]\<rparr>)
                  | None \<Rightarrow>
                      (c, st\<lparr>log := log st @
                                [(tg, Translator_call text), (tg, Failure_printed text)]\<rparr>)))
          else (c, st)
      | _ \<Rightarrow> (c, st))"

text \<open>
  One iteration of the inner loop (lines 91-122, and 209-241): resolve the coordinate,
  then run the body on the resolved cell. The body mutates the cell object in place; the
  model stores the resulting cell back at the coordinate of that object. The two entry
  operations have the same loops and differ in the body, which is the parameter \<open>body\<close>.
\<close>

definition visit_cell ::
  "(tag \<Rightarrow> cell \<Rightarrow> run_state \<Rightarrow> cell \<times> run_state) \<Rightarrow> string \<Rightarrow> coord set \<Rightarrow> (coord \<rightharpoonup> coord) \<Rightarrow>
   coord \<Rightarrow> sheet \<times> run_state \<Rightarrow> sheet \<times> run_state" where
  "visit_cell body name mc mm x acc =
     (case resolve mc mm x of
        Proceed m \<Rightarrow>
          let (c', st') = body (name, x) (cells (fst acc) m) (snd acc) in
          ((fst acc)\<lparr>cells := (cells (fst acc))(m := c')\<rparr>, st')
      | Skip_non_master \<Rightarrow> acc
      | Skip_no_entry \<Rightarrow> acc)"

text \<open>\<^verbatim>\<open>for col in range(1, sheet.max_column + 1)\<close> for one row.\<close>

definition walk_row ::
  "(tag \<Rightarrow> cell \<Rightarrow> run_state \<Rightarrow> cell \<times> run_state) \<Rightarrow> string \<Rightarrow> coord set \<Rightarrow> (coord \<rightharpoonup> coord) \<Rightarrow>
   sheet \<times> run_state \<Rightarrow> nat \<Rightarrow> sheet \<times> run_state" where
  "walk_row body name mc mm acc row =
     foldl (\<lambda>acc col. visit_cell body name mc mm (row, col) acc) acc
       [1..<Suc (sheet_max_column (fst acc))]"

text \<open>\<^verbatim>\<open>for row in range(1, sheet.max_row + 1)\<close>.\<close>

definition cell_walker ::
  "(tag \<Rightarrow> cell \<Rightarrow> run_state \<Rightarrow> cell \<times> run_state) \<Rightarrow> string \<Rightarrow> coord set \<Rightarrow> (coord \<rightharpoonup> coord) \<Rightarrow>
   sheet \<Rightarrow> run_state \<Rightarrow> sheet \<times> run_state" where
  "cell_walker body name mc mm sh st =
     foldl (walk_row body name mc mm) (sh, st) [1..<Suc (sheet_max_row sh)]"

section \<open>Column widths\<close>

text \<open>Lines 129-143: one iteration of the row loop for column \<open>col_idx\<close>.\<close>

definition measure_cell ::
  "coord set \<Rightarrow> (coord \<rightharpoonup> coord) \<Rightarrow> sheet \<Rightarrow> nat \<Rightarrow> nat \<Rightarrow> nat \<Rightarrow> nat" where
  "measure_cell mc mm sh col_idx max_length row =
     (let c = cells sh (row, col_idx) in
      if truthy (cvalue c) then
        if (row, col_idx) \<in> mc \<and>
           (case mm (row, col_idx) of
              Some m \<Rightarrow> fst m \<noteq> row \<or> snd m \<noteq> col_idx
            | None \<Rightarrow> False)
        then max_length
        else
          (case cvalue c of
             Text s \<Rightarrow> if cell_length s > max_length then cell_length s else max_length
           | _ \<Rightarrow> max_length)
      else max_length)"

definition column_max_length :: "coord set \<Rightarrow> (coord \<rightharpoonup> coord) \<Rightarrow> sheet \<Rightarrow> nat \<Rightarrow> nat" where
  "column_max_length mc mm sh col_idx =
     foldl (measure_cell mc mm sh col_idx) 0 [1..<Suc (sheet_max_row sh)]"

text \<open>Lines 125-148: one iteration of the column loop.\<close>

definition adjust_column :: "coord set \<Rightarrow> (coord \<rightharpoonup> coord) \<Rightarrow> sheet \<Rightarrow> nat \<Rightarrow> sheet" where
  "adjust_column mc mm sh col_idx =
     (let max_length = column_max_length mc mm sh col_idx in
      if max_length > 0 then
        sh\<lparr>column_width := (column_width sh)(col_idx := real (min (max_length + 2) 50))\<rparr>
      else sh)"

definition adjust_widths :: "coord set \<Rightarrow> (coord \<rightharpoonup> coord) \<Rightarrow> sheet \<Rightarrow> sheet" where
  "adjust_widths mc mm sh = foldl (adjust_column mc mm) sh [1..<Suc (sheet_max_column sh)]"

section \<open>The two entry operations\<close>

text \<open>Lines 68-148: the body of the sheet loop of \<^verbatim>\<open>translate_excel_sheets\<close>.\<close>

definition process_sheet :: "translator \<Rightarrow> string \<Rightarrow> sheet \<Rightarrow> run_state \<Rightarrow> sheet \<times> run_state" where
  "process_sheet tr name sh st =
     (let mc = merged_cells (merged_ranges sh);
          mm = merged_master_cells (merged_ranges sh);
          (sh', st') = cell_walker (translate_cell tr) name mc mm sh st
      in (adjust_widths mc mm sh', st'))"

text \<open>
  Lines 189-241: the body of the sheet loop of \<^verbatim>\<open>translate_selected_sheets\<close>. There is no
  column loop in this function.
\<close>

definition process_sheet_selected ::
  "translator \<Rightarrow> string \<Rightarrow> sheet \<Rightarrow> run_state \<Rightarrow> sheet \<times> run_state" where
  "process_sheet_selected tr name sh st =
     (let mc = merged_cells (merged_ranges sh);
          mm = merged_master_cells (merged_ranges sh)
      in cell_walker (translate_cell_selected tr) name mc mm sh st)"

text \<open>
  A workbook: its sheets in order, each with its title. \<^verbatim>\<open>workbook[sheet_name]\<close> is the
  first sheet with that title, and the sheet object is mutated in place.
\<close>

type_synonym workbook = "(string \<times> sheet) list"

fun set_sheet :: "string \<Rightarrow> sheet \<Rightarrow> workbook \<Rightarrow> workbook" where
  "set_sheet name sh' [] = []"
| "set_sheet name sh' ((n, sh) # wb) =
     (if n = name then (n, sh') # wb else (n, sh) # set_sheet name sh' wb)"

text \<open>
  \<^verbatim>\<open>for sheet_name in ...\<close> with the per-sheet body \<open>f\<close>. A name that is not a sheet of
  the workbook is skipped (the \<^verbatim>\<open>if sheet_name in workbook.sheetnames\<close> of line 188; in
  \<^verbatim>\<open>translate_excel_sheets\<close> the names are the workbook's own, so the case does not
  arise).
\<close>

fun sheets_loop ::
  "(string \<Rightarrow> sheet \<Rightarrow> run_state \<Rightarrow> sheet \<times> run_state) \<Rightarrow> string list \<Rightarrow>
   workbook \<times> run_state \<Rightarrow> workbook \<times> run_state" where
  "sheets_loop f [] acc = acc"
| "sheets_loop f (name # names) acc =
     (case map_of (fst acc) name of
        Some sh \<Rightarrow>
          let (sh', st') = f name sh (snd acc) in
          sheets_loop f names (set_sheet name sh' (fst acc), st')
      | None \<Rightarrow> sheets_loop f names acc)"

text \<open>
  The workbook handed to \<^verbatim>\<open>workbook.save\<close> and the final state of the run (loading and
  saving the file are outside the model).
\<close>

definition translate_excel_sheets :: "translator \<Rightarrow> workbook \<Rightarrow> workbook \<times> run_state" where
  "translate_excel_sheets tr wb = sheets_loop (process_sheet tr) (map fst wb) (wb, initial_state)"

definition translate_selected_sheets ::
  "translator \<Rightarrow> workbook \<Rightarrow> string list \<Rightarrow> workbook \<times> run_state" where
  "translate_selected_sheets tr wb sheet_names =
     sheets_loop (process_sheet_selected tr) sheet_names (wb, initial_state)"

section \<open>Notions used to state and prove the properties\<close>

text \<open>
  A coordinate the traversal works on: outside every merged range, or mapped to itself by
  the dictionary (a master coordinate).
\<close>

definition eligible :: "coord set \<Rightarrow> (coord \<rightharpoonup> coord) \<Rightarrow> coord \<Rightarrow> bool" where
  "eligible mc mm x = (if x \<in> mc then mm x = Some x else True)"

definition run_jobs ::
  "(tag \<Rightarrow> cell \<Rightarrow> run_state \<Rightarrow> cell \<times> run_state) \<Rightarrow> (tag \<times> cell) list \<Rightarrow> run_state \<Rightarrow> run_state" where
  "run_jobs body jobs st = foldl (\<lambda>st job. snd (body (fst job) (snd job) st)) st jobs"

definition jobs_of ::
  "string \<Rightarrow> coord set \<Rightarrow> (coord \<rightharpoonup> coord) \<Rightarrow> sheet \<Rightarrow> coord list \<Rightarrow> (tag \<times> cell) list" where
  "jobs_of name mc mm sh xs = map (\<lambda>x. ((name, x), cells sh x)) (filter (eligible mc mm) xs)"

definition grid_coords :: "sheet \<Rightarrow> coord list" where
  "grid_coords sh = List.product [1..<Suc (sheet_max_row sh)] [1..<Suc (sheet_max_column sh)]"

definition walk_coords where
  "walk_coords body name mc mm acc xs = foldl (\<lambda>acc x. visit_cell body name mc mm x acc) acc xs"

definition cache_ok :: "translator \<Rightarrow> run_state \<Rightarrow> bool" where
  "cache_ok tr st =
     (\<forall>k r. translation_cache st k = Some r \<longrightarrow> (\<exists>u. tr k = Some u \<and> r = u @ [10] @ k))"

definition expected_text :: "translator \<Rightarrow> pystr \<Rightarrow> pystr" where
  "expected_text tr v = (case tr (strip v) of Some u \<Rightarrow> u @ [10] @ strip v | None \<Rightarrow> strip v)"

definition expected_cell :: "translator \<Rightarrow> cell \<Rightarrow> cell" where
  "expected_cell tr c =
     (case cvalue c of
        Text v \<Rightarrow>
          if v \<noteq> [] \<and> has_cjk v
          then c\<lparr>cvalue := Text (expected_text tr v), calignment := wrap_top\<rparr>
          else c
      | _ \<Rightarrow> c)"

definition new_width :: "coord set \<Rightarrow> (coord \<rightharpoonup> coord) \<Rightarrow> sheet \<Rightarrow> nat set \<Rightarrow> nat \<Rightarrow> real" where
  "new_width mc mm sh cols c =
     (if c \<in> cols \<and> 0 < column_max_length mc mm sh c
      then real (min (column_max_length mc mm sh c + 2) 50)
      else column_width sh c)"

definition sheet_jobs :: "string \<Rightarrow> sheet \<Rightarrow> (tag \<times> cell) list" where
  "sheet_jobs name sh =
     jobs_of name (merged_cells (merged_ranges sh)) (merged_master_cells (merged_ranges sh)) sh
       (grid_coords sh)"

definition visited :: "sheet \<Rightarrow> coord \<Rightarrow> bool" where
  "visited sh x =
     (x \<in> set (grid_coords sh) \<and>
      eligible (merged_cells (merged_ranges sh)) (merged_master_cells (merged_ranges sh)) x)"

definition walked_sheet :: "translator \<Rightarrow> sheet \<Rightarrow> sheet" where
  "walked_sheet tr sh =
     sh\<lparr>cells := (\<lambda>x. if visited sh x then expected_cell tr (cells sh x) else cells sh x)\<rparr>"

definition final_sheet :: "translator \<Rightarrow> sheet \<Rightarrow> sheet" where
  "final_sheet tr sh =
     adjust_widths (merged_cells (merged_ranges sh)) (merged_master_cells (merged_ranges sh))
       (walked_sheet tr sh)"

definition selected_sheets :: "workbook \<Rightarrow> string list \<Rightarrow> workbook" where
  "selected_sheets wb names =
     concat (map (\<lambda>n. case map_of wb n of Some sh \<Rightarrow> [(n, sh)] | None \<Rightarrow> []) names)"

definition workbook_jobs :: "workbook \<Rightarrow> (tag \<times> cell) list" where
  "workbook_jobs wb = concat (map (\<lambda>(n, sh). sheet_jobs n sh) wb)"

text \<open>
  The largest length of a single line of a text, and the largest such length over the texts
  of the cells of column \<open>c\<close> that the traversal works on (0 when there is none).
\<close>

definition single_line_max :: "pystr \<Rightarrow> nat" where
  "single_line_max s = Max (set (map length (split_lines s)))"

definition eligible_texts :: "sheet \<Rightarrow> nat \<Rightarrow> pystr list" where
  "eligible_texts sh c =
     concat (map (\<lambda>r. case cvalue (cells sh (r, c)) of
                          Text s \<Rightarrow>
                            if eligible (merged_cells (merged_ranges sh))
                                 (merged_master_cells (merged_ranges sh)) (r, c)
                            then [s] else []
                        | _ \<Rightarrow> [])
                 [1..<Suc (sheet_max_row sh)])"

definition longest_line :: "sheet \<Rightarrow> nat \<Rightarrow> nat" where
  "longest_line sh c = Max (set (0 # map single_line_max (eligible_texts sh c)))"

definition row_texts :: "coord set \<Rightarrow> (coord \<rightharpoonup> coord) \<Rightarrow> sheet \<Rightarrow> nat \<Rightarrow> nat \<Rightarrow> pystr list" where
  "row_texts mc mm sh c r =
     (case cvalue (cells sh (r, c)) of
        Text s \<Rightarrow> if eligible mc mm (r, c) then [s] else []
      | _ \<Rightarrow> [])"





text \<open>The value, alignment and column width found in a workbook.\<close>

definition value_at :: "workbook \<Rightarrow> string \<Rightarrow> coord \<Rightarrow> cell_value option" where
  "value_at wb name x = map_option (\<lambda>sh. cvalue (cells sh x)) (map_of wb name)"

definition alignment_at :: "workbook \<Rightarrow> string \<Rightarrow> coord \<Rightarrow> alignment option" where
  "alignment_at wb name x = map_option (\<lambda>sh. calignment (cells sh x)) (map_of wb name)"






section \<open>Example inputs\<close>

text \<open>Example ranges: A1:B2, B2:C3 (overlapping A1:B2 in B2) and C1:D1.\<close>

definition range_A1_B2 :: merged_range where
  "range_A1_B2 = \<lparr>min_row = 1, min_col = 1, max_row = 2, max_col = 2\<rparr>"

definition range_B2_C3 :: merged_range where
  "range_B2_C3 = \<lparr>min_row = 2, min_col = 2, max_row = 3, max_col = 3\<rparr>"

definition range_C1_D1 :: merged_range where
  "range_C1_D1 = \<lparr>min_row = 1, min_col = 3, max_row = 1, max_col = 4\<rparr>"

lemmas example_ranges = range_A1_B2_def range_B2_C3_def range_C1_D1_def

text \<open>
  The texts of the worked example: the two ideographs U+6D4B U+8BD5, and the ASCII
  strings \<^verbatim>\<open>Test\<close> and \<^verbatim>\<open>Hello\<close>.
\<close>

definition text_ceshi :: pystr where
  "text_ceshi = [27979, 35797]"

definition text_Test :: pystr where
  "text_Test = [84, 101, 115, 116]"

definition text_Hello :: pystr where
  "text_Hello = [72, 101, 108, 108, 111]"

definition blank_cell :: cell where
  "blank_cell = \<lparr>cvalue = Blank, calignment = Alignment None None\<rparr>"

definition text_cell :: "pystr \<Rightarrow> cell" where
  "text_cell s = \<lparr>cvalue = Text s, calignment = Alignment None None\<rparr>"

text \<open>A translator that knows one text, and one that always fails.\<close>

definition example_translator :: translator where
  "example_translator t = (if t = text_ceshi then Some text_Test else None)"

definition failing_translator :: translator where
  "failing_translator t = None"

text \<open>
  The sheet of the worked example: range A1:B2 merged, A1 holds the two ideographs, C1
  holds \<^verbatim>\<open>Hello\<close>, every column is 13 wide.
\<close>

definition example_sheet :: sheet where
  "example_sheet =
     \<lparr>cells = (\<lambda>x. if x = (1, 1) then text_cell text_ceshi
                    else if x = (1, 3) then text_cell text_Hello else blank_cell),
      sheet_max_row = 2, sheet_max_column = 3,
      merged_ranges = [range_A1_B2],
      column_width = (\<lambda>c. 13)\<rparr>"

definition example_workbook :: workbook where
  "example_workbook = [(''Sheet1'', example_sheet)]"

text \<open>
  A sheet of one column without merged ranges: A1 holds the two ideographs between two
  spaces, A2 holds them without spaces.
\<close>

definition column_sheet :: sheet where
  "column_sheet =
     \<lparr>cells = (\<lambda>x. if x = (1, 1) then text_cell ([32] @ text_ceshi @ [32])
                    else if x = (2, 1) then text_cell text_ceshi else blank_cell),
      sheet_max_row = 2, sheet_max_column = 1,
      merged_ranges = [],
      column_width = (\<lambda>c. 13)\<rparr>"

definition column_workbook :: workbook where
  "column_workbook = [(''Sheet1'', column_sheet)]"

text \<open>A sheet with the overlapping ranges A1:B2 and B2:C3, where B2 holds the ideographs.\<close>

definition overlap_sheet :: sheet where
  "overlap_sheet =
     \<lparr>cells = (\<lambda>x. if x = (2, 2) then text_cell text_ceshi else blank_cell),
      sheet_max_row = 3, sheet_max_column = 3,
      merged_ranges = [range_A1_B2, range_B2_C3],
      column_width = (\<lambda>c. 13)\<rparr>"

definition overlap_workbook :: workbook where
  "overlap_workbook = [(''Sheet1'', overlap_sheet)]"

lemmas example_inputs = text_ceshi_def text_Test_def text_Hello_def blank_cell_def
  text_cell_def example_translator_def failing_translator_def example_sheet_def
  example_workbook_def column_sheet_def column_workbook_def overlap_sheet_def
  overlap_workbook_def

section \<open>Properties of the region index\<close>

lemma in_range_coords:
  "(r, c) \<in> set (range_coords m) \<longleftrightarrow>
     min_row m \<le> r \<and> r \<le> max_row m \<and> min_col m \<le> c \<and> c \<le> max_col m"
  by (force simp: range_coords_def)

lemma master_in_range:
  "x \<in> set (range_coords m) \<Longrightarrow> master_of_range m \<in> set (range_coords m)"
  by (cases x) (auto simp: in_range_coords master_of_range_def)

lemma foldl_insert_set: "foldl (\<lambda>acc x. insert x acc) A xs = A \<union> set xs"
  by (induction xs arbitrary: A) auto

lemma foldl_upd_const:
  "foldl (\<lambda>acc x. acc(x \<mapsto> v)) f xs = (\<lambda>y. if y \<in> set xs then Some v else f y)"
  by (induction xs arbitrary: f) (auto simp: fun_eq_iff)

lemma merged_cells_Nil: "merged_cells [] = {}"
  by (simp add: merged_cells_def)

lemma merged_cells_snoc:
  "merged_cells (rs @ [m]) = merged_cells rs \<union> set (range_coords m)"
  by (simp add: merged_cells_def add_range_cells_def foldl_insert_set)

lemma merged_cells_Union: "merged_cells rs = (\<Union>m\<in>set rs. set (range_coords m))"
  by (induction rs rule: rev_induct) (auto simp: merged_cells_Nil merged_cells_snoc)

lemma merged_master_cells_Nil: "merged_master_cells [] = Map.empty"
  by (simp add: merged_master_cells_def)

lemma merged_master_cells_snoc:
  "merged_master_cells (rs @ [m]) =
     (\<lambda>y. if y \<in> set (range_coords m) then Some (master_of_range m)
          else merged_master_cells rs y)"
  unfolding merged_master_cells_def by (simp add: add_range_master_def foldl_upd_const)

lemma dom_merged_master_cells: "dom (merged_master_cells rs) = merged_cells rs"
  by (induction rs rule: rev_induct)
     (auto simp: merged_master_cells_Nil merged_master_cells_snoc merged_cells_Nil
        merged_cells_snoc dom_def)

lemma merged_master_cells_last_wins:
  "x \<in> set (range_coords m) \<Longrightarrow> \<forall>q\<in>set post. x \<notin> set (range_coords q) \<Longrightarrow>
   merged_master_cells (pre @ m # post) x = Some (master_of_range m)"
proof (induction post rule: rev_induct)
  case Nil
  then show ?case by (simp add: merged_master_cells_snoc)
next
  case (snoc q post)
  have "merged_master_cells ((pre @ m # post) @ [q]) x = merged_master_cells (pre @ m # post) x"
    using snoc.prems(2) merged_master_cells_snoc [of "pre @ m # post" q] by simp
  with snoc show ?case by simp
qed

lemma non_overlapping_append:
  "non_overlapping (xs @ ys) \<longleftrightarrow>
     non_overlapping xs \<and> non_overlapping ys \<and>
     (\<forall>a\<in>set xs. \<forall>b\<in>set ys. disjoint_ranges a b)"
  by (induction xs) (auto simp: list_all_iff)

lemma non_overlapping_unique_master:
  assumes "non_overlapping rs" and "m \<in> set rs" and "x \<in> set (range_coords m)"
  shows "merged_master_cells rs x = Some (master_of_range m)"
proof -
  from assms(2) obtain pre post where rs: "rs = pre @ m # post"
    by (auto simp: in_set_conv_decomp)
  have "\<forall>q\<in>set post. x \<notin> set (range_coords q)"
    using assms(1,3) unfolding rs
    by (auto simp: non_overlapping_append list_all_iff disjoint_ranges_def)
  with assms(3) show ?thesis unfolding rs by (rule merged_master_cells_last_wins)
qed

subsection \<open>Evaluating the index on concrete ranges\<close>

lemma in_range_coords_iff:
  "x \<in> set (range_coords m) \<longleftrightarrow>
     min_row m \<le> fst x \<and> fst x \<le> max_row m \<and> min_col m \<le> snd x \<and> snd x \<le> max_col m"
  by (cases x) (simp add: in_range_coords)

lemma merged_cells_iff: "x \<in> merged_cells rs \<longleftrightarrow> (\<exists>m\<in>set rs. x \<in> set (range_coords m))"
  by (simp add: merged_cells_Union)

lemma merged_master_cells_find:
  "merged_master_cells rs x =
     map_option master_of_range (find (\<lambda>m. x \<in> set (range_coords m)) (rev rs))"
  by (induction rs rule: rev_induct)
     (simp_all add: merged_master_cells_Nil merged_master_cells_snoc)

lemma disjoint_ranges_iff:
  "disjoint_ranges a b \<longleftrightarrow>
     min (max_row a) (max_row b) < max (min_row a) (min_row b) \<or>
     min (max_col a) (max_col b) < max (min_col a) (min_col b)"
proof
  assume d: "disjoint_ranges a b"
  show "min (max_row a) (max_row b) < max (min_row a) (min_row b) \<or>
     min (max_col a) (max_col b) < max (min_col a) (min_col b)"
  proof (rule ccontr)
    assume "\<not> ?thesis"
    then have "(max (min_row a) (min_row b), max (min_col a) (min_col b))
        \<in> set (range_coords a) \<inter> set (range_coords b)"
      by (auto simp: in_range_coords)
    with d show False by (auto simp: disjoint_ranges_def)
  qed
next
  assume "min (max_row a) (max_row b) < max (min_row a) (min_row b) \<or>
     min (max_col a) (max_col b) < max (min_col a) (min_col b)"
  then show "disjoint_ranges a b"
    by (auto simp: disjoint_ranges_def in_range_coords)
qed

lemmas eval_regions = merged_cells_iff merged_master_cells_find in_range_coords_iff
  disjoint_ranges_iff master_of_range_def resolve_def

section \<open>Properties of the traversal\<close>

lemma resolve_Proceed: "resolve mc mm x = Proceed m \<longleftrightarrow> m = x \<and> eligible mc mm x"
  by (cases x; cases m) (auto simp: resolve_def eligible_def split: option.splits if_splits)

lemma resolve_cases:
  "resolve mc mm x = (if eligible mc mm x then Proceed x
     else if mm x = None then Skip_no_entry else Skip_non_master)"
  by (cases x) (auto simp: resolve_def eligible_def split: option.splits if_splits)

lemma visit_cell_eq:
  "visit_cell body name mc mm x (sh, st) =
     (if eligible mc mm x then
        (sh\<lparr>cells := (cells sh)(x := fst (body (name, x) (cells sh x) st))\<rparr>,
         snd (body (name, x) (cells sh x) st))
      else (sh, st))"
  by (simp add: visit_cell_def resolve_cases split_beta)

lemma run_jobs_Nil: "run_jobs body [] st = st"
  by (simp add: run_jobs_def)

lemma run_jobs_Cons:
  "run_jobs body (j # jobs) st = run_jobs body jobs (snd (body (fst j) (snd j) st))"
  by (simp add: run_jobs_def)

lemma run_jobs_append:
  "run_jobs body (js @ ks) st = run_jobs body ks (run_jobs body js st)"
  by (simp add: run_jobs_def)

lemma run_jobs_inv:
  assumes "\<And>tg c st. Inv st \<Longrightarrow> Inv (snd (body tg c st))"
  shows "Inv st \<Longrightarrow> Inv (run_jobs body jobs st)"
  by (induction jobs arbitrary: st) (simp_all add: run_jobs_Nil run_jobs_Cons assms)

lemma jobs_of_cong:
  "(\<And>x. x \<in> set xs \<Longrightarrow> cells sh1 x = cells sh2 x) \<Longrightarrow>
   jobs_of name mc mm sh1 xs = jobs_of name mc mm sh2 xs"
  by (simp add: jobs_of_def)

lemma walk_coords_Nil: "walk_coords body name mc mm acc [] = acc"
  by (simp add: walk_coords_def)

lemma walk_coords_Cons:
  "walk_coords body name mc mm acc (x # xs) =
     walk_coords body name mc mm (visit_cell body name mc mm x acc) xs"
  by (simp add: walk_coords_def)

lemma walk_coords_spec:
  assumes step: "\<And>tg c st. Inv st \<Longrightarrow> R c (fst (body tg c st)) \<and> Inv (snd (body tg c st))"
  shows "distinct xs \<Longrightarrow> Inv st \<Longrightarrow>
    snd (walk_coords body name mc mm (sh, st) xs) = run_jobs body (jobs_of name mc mm sh xs) st \<and>
    fst (walk_coords body name mc mm (sh, st) xs) =
      sh\<lparr>cells := cells (fst (walk_coords body name mc mm (sh, st) xs))\<rparr> \<and>
    (\<forall>x. if x \<in> set xs \<and> eligible mc mm x
         then R (cells sh x) (cells (fst (walk_coords body name mc mm (sh, st) xs)) x)
         else cells (fst (walk_coords body name mc mm (sh, st) xs)) x = cells sh x)"
proof (induction xs arbitrary: sh st)
  case Nil
  then show ?case by (simp add: walk_coords_Nil jobs_of_def run_jobs_Nil)
next
  case (Cons y xs)
  show ?case
  proof (cases "eligible mc mm y")
    case False
    then have v: "visit_cell body name mc mm y (sh, st) = (sh, st)"
      by (simp add: visit_cell_eq)
    have j: "jobs_of name mc mm sh (y # xs) = jobs_of name mc mm sh xs"
      using False by (simp add: jobs_of_def)
    from Cons.IH [of st sh] Cons.prems False show ?thesis
      by (auto simp: walk_coords_Cons v j)
  next
    case True
    define c' where "c' = fst (body (name, y) (cells sh y) st)"
    define st1 where "st1 = snd (body (name, y) (cells sh y) st)"
    define sh1 where "sh1 = sh\<lparr>cells := (cells sh)(y := c')\<rparr>"
    have v: "visit_cell body name mc mm y (sh, st) = (sh1, st1)"
      using True by (simp add: visit_cell_eq sh1_def st1_def c'_def)
    have Rc: "R (cells sh y) c'" and I1: "Inv st1"
      using step [OF Cons.prems(2)] by (simp_all add: c'_def st1_def)
    have y: "y \<notin> set xs" and d: "distinct xs" using Cons.prems(1) by simp_all
    have j1: "jobs_of name mc mm sh1 xs = jobs_of name mc mm sh xs"
      by (rule jobs_of_cong) (use y in \<open>auto simp: sh1_def\<close>)
    have j: "run_jobs body (jobs_of name mc mm sh (y # xs)) st =
             run_jobs body (jobs_of name mc mm sh xs) st1"
      using True by (simp add: jobs_of_def run_jobs_Cons st1_def)
    note IH = Cons.IH [OF d I1, of sh1]
    let ?res = "walk_coords body name mc mm (sh1, st1) xs"
    have a: "snd ?res = run_jobs body (jobs_of name mc mm sh (y # xs)) st"
      using IH j j1 by simp
    have b: "fst ?res = sh\<lparr>cells := cells (fst ?res)\<rparr>"
    proof -
      have "fst ?res = sh1\<lparr>cells := cells (fst ?res)\<rparr>" using IH by simp
      then show ?thesis by (simp add: sh1_def)
    qed
    have IHc: "if x \<in> set xs \<and> eligible mc mm x
         then R (cells sh1 x) (cells (fst ?res) x)
         else cells (fst ?res) x = cells sh1 x" for x
      using IH by blast
    have c: "if x \<in> set (y # xs) \<and> eligible mc mm x
         then R (cells sh x) (cells (fst ?res) x)
         else cells (fst ?res) x = cells sh x" for x
    proof (cases "x = y")
      case True
      have "cells (fst ?res) y = cells sh1 y" using IHc [of y] y by simp
      with Rc \<open>eligible mc mm y\<close> True show ?thesis by (simp add: sh1_def)
    next
      case False
      then have "cells sh1 x = cells sh x" by (simp add: sh1_def)
      with IHc [of x] False show ?thesis by (auto split: if_splits)
    qed
    show ?thesis unfolding walk_coords_Cons v using a b c by blast
  qed
qed

lemma visit_cell_frame:
  "sheet_max_column (fst (visit_cell body name mc mm x acc)) = sheet_max_column (fst acc) \<and>
   sheet_max_row (fst (visit_cell body name mc mm x acc)) = sheet_max_row (fst acc) \<and>
   merged_ranges (fst (visit_cell body name mc mm x acc)) = merged_ranges (fst acc) \<and>
   column_width (fst (visit_cell body name mc mm x acc)) = column_width (fst acc)"
  by (cases acc) (simp add: visit_cell_eq)

lemma walk_coords_frame:
  "sheet_max_column (fst (walk_coords body name mc mm acc xs)) = sheet_max_column (fst acc) \<and>
   sheet_max_row (fst (walk_coords body name mc mm acc xs)) = sheet_max_row (fst acc) \<and>
   merged_ranges (fst (walk_coords body name mc mm acc xs)) = merged_ranges (fst acc) \<and>
   column_width (fst (walk_coords body name mc mm acc xs)) = column_width (fst acc)"
  by (induction xs arbitrary: acc) (simp_all add: walk_coords_Nil walk_coords_Cons visit_cell_frame)

lemma walk_coords_append:
  "walk_coords body name mc mm acc (xs @ ys) =
     walk_coords body name mc mm (walk_coords body name mc mm acc xs) ys"
  by (simp add: walk_coords_def)

lemma walk_row_eq:
  "walk_row body name mc mm acc row =
     walk_coords body name mc mm acc (map (Pair row) [1..<Suc (sheet_max_column (fst acc))])"
  by (simp add: walk_row_def walk_coords_def foldl_map)

lemma walk_rows_eq:
  "foldl (walk_row body name mc mm) acc rows =
     walk_coords body name mc mm acc
       (List.product rows [1..<Suc (sheet_max_column (fst acc))])"
proof (induction rows arbitrary: acc)
  case Nil
  then show ?case by (simp add: walk_coords_Nil)
next
  case (Cons r rows)
  let ?cols = "[1..<Suc (sheet_max_column (fst acc))]"
  let ?acc1 = "walk_row body name mc mm acc r"
  have m: "sheet_max_column (fst ?acc1) = sheet_max_column (fst acc)"
    by (simp only: walk_row_eq walk_coords_frame)
  have "foldl (walk_row body name mc mm) acc (r # rows) =
        foldl (walk_row body name mc mm) ?acc1 rows"
    by simp
  also have "\<dots> = walk_coords body name mc mm ?acc1 (List.product rows ?cols)"
    using Cons.IH [of ?acc1] by (simp only: m)
  also have "\<dots> = walk_coords body name mc mm
      (walk_coords body name mc mm acc (map (Pair r) ?cols)) (List.product rows ?cols)"
    by (simp only: walk_row_eq)
  finally show ?case
    by (simp only: walk_coords_append List.product.simps)
qed

lemma cell_walker_eq:
  "cell_walker body name mc mm sh st = walk_coords body name mc mm (sh, st) (grid_coords sh)"
  by (simp only: cell_walker_def walk_rows_eq grid_coords_def fst_conv)

lemma distinct_grid_coords: "distinct (grid_coords sh)"
  by (simp add: grid_coords_def distinct_product)

lemma set_grid_coords:
  "x \<in> set (grid_coords sh) \<longleftrightarrow>
     1 \<le> fst x \<and> fst x \<le> sheet_max_row sh \<and> 1 \<le> snd x \<and> snd x \<le> sheet_max_column sh"
  by (cases x) (auto simp: grid_coords_def)

lemma cache_ok_initial: "cache_ok tr initial_state"
  by (simp add: cache_ok_def initial_state_def)

lemma translate_text_spec:
  assumes "cache_ok tr st" and "v \<noteq> []"
  shows "fst (translate_text tr tg (Text v) st) = Text (expected_text tr v) \<and>
         cache_ok tr (snd (translate_text tr tg (Text v) st))"
proof (cases "translation_cache st (strip v)")
  case None
  with assms show ?thesis
    by (auto simp: cache_ok_def expected_text_def Let_def split: option.splits)
next
  case (Some r)
  with assms(1) obtain u where "tr (strip v) = Some u" "r = u @ [10] @ strip v"
    unfolding cache_ok_def by blast
  with Some assms show ?thesis
    by (simp add: expected_text_def)
qed

lemma translate_cell_spec:
  assumes "cache_ok tr st"
  shows "fst (translate_cell tr tg c st) = expected_cell tr c \<and>
         cache_ok tr (snd (translate_cell tr tg c st))"
proof (cases "cvalue c")
  case (Text v)
  show ?thesis
  proof (cases "v \<noteq> [] \<and> has_cjk v")
    case True
    then have v: "v \<noteq> []" by simp
    from translate_text_spec [OF assms v, of tg] True Text show ?thesis
      by (simp add: translate_cell_def expected_cell_def split_beta cache_ok_def)
  next
    case False
    with Text assms show ?thesis
      by (auto simp: translate_cell_def expected_cell_def)
  qed
qed (use assms in \<open>simp_all add: translate_cell_def expected_cell_def\<close>)

lemma measure_cell_width_indep:
  "measure_cell mc mm (sh\<lparr>column_width := w\<rparr>) = measure_cell mc mm sh"
  by (simp add: fun_eq_iff measure_cell_def)

lemma column_max_length_width_indep:
  "column_max_length mc mm (sh\<lparr>column_width := w\<rparr>) c = column_max_length mc mm sh c"
  by (simp add: column_max_length_def measure_cell_width_indep)

lemma adjust_column_eq:
  "adjust_column mc mm sh c = sh\<lparr>column_width := new_width mc mm sh {c}\<rparr>"
  by (auto simp: adjust_column_def new_width_def Let_def fun_eq_iff
      intro!: sheet.equality)

lemma adjust_columns_eq:
  "foldl (adjust_column mc mm) sh cols = sh\<lparr>column_width := new_width mc mm sh (set cols)\<rparr>"
proof (induction cols arbitrary: sh)
  case Nil
  then show ?case by (simp add: new_width_def)
next
  case (Cons c cols)
  have "foldl (adjust_column mc mm) sh (c # cols) =
        foldl (adjust_column mc mm) (adjust_column mc mm sh c) cols"
    by simp
  also have "\<dots> = (adjust_column mc mm sh c)
      \<lparr>column_width := new_width mc mm (adjust_column mc mm sh c) (set cols)\<rparr>"
    by (rule Cons.IH)
  also have "\<dots> = sh\<lparr>column_width := new_width mc mm sh (set (c # cols))\<rparr>"
    by (auto simp: adjust_column_eq new_width_def column_max_length_width_indep fun_eq_iff)
  finally show ?case .
qed

lemma adjust_widths_eq:
  "adjust_widths mc mm sh =
     sh\<lparr>column_width := new_width mc mm sh {1..sheet_max_column sh}\<rparr>"
proof -
  have "set [1..<Suc (sheet_max_column sh)] = {1..sheet_max_column sh}" by auto
  then show ?thesis by (simp only: adjust_widths_def adjust_columns_eq)
qed

lemma cell_walker_translate_cell:
  assumes "cache_ok tr st"
  shows "cell_walker (translate_cell tr) name (merged_cells (merged_ranges sh))
           (merged_master_cells (merged_ranges sh)) sh st =
         (walked_sheet tr sh, run_jobs (translate_cell tr) (sheet_jobs name sh) st)"
proof -
  let ?mc = "merged_cells (merged_ranges sh)" and ?mm = "merged_master_cells (merged_ranges sh)"
  let ?res = "walk_coords (translate_cell tr) name ?mc ?mm (sh, st) (grid_coords sh)"
  have step: "\<And>tg c st. cache_ok tr st \<Longrightarrow>
      (\<lambda>c c'. c' = expected_cell tr c) c (fst (translate_cell tr tg c st)) \<and>
      cache_ok tr (snd (translate_cell tr tg c st))"
    by (simp add: translate_cell_spec)
  note spec = walk_coords_spec [where Inv = "cache_ok tr" and R = "\<lambda>c c'. c' = expected_cell tr c"
      and body = "translate_cell tr", OF step distinct_grid_coords assms, of name ?mc ?mm sh]
  have s: "snd ?res = run_jobs (translate_cell tr) (sheet_jobs name sh) st"
    using spec by (simp add: sheet_jobs_def)
  have c: "cells (fst ?res) = (\<lambda>x. if visited sh x then expected_cell tr (cells sh x) else cells sh x)"
    using spec by (auto simp: fun_eq_iff visited_def split: if_splits)
  have "fst ?res = sh\<lparr>cells := cells (fst ?res)\<rparr>" using spec by simp
  with c have f: "fst ?res = walked_sheet tr sh" by (simp add: walked_sheet_def)
  show ?thesis unfolding cell_walker_eq using s f by (simp add: prod_eq_iff)
qed

lemma process_sheet_eq:
  assumes "cache_ok tr st"
  shows "process_sheet tr name sh st =
           (final_sheet tr sh, run_jobs (translate_cell tr) (sheet_jobs name sh) st)"
  by (simp add: process_sheet_def Let_def cell_walker_translate_cell [OF assms] final_sheet_def)

lemma run_jobs_translate_cell_ok:
  "cache_ok tr st \<Longrightarrow> cache_ok tr (run_jobs (translate_cell tr) jobs st)"
  by (rule run_jobs_inv [where Inv = "cache_ok tr"]) (simp_all add: translate_cell_spec)

lemma map_of_set_sheet:
  "m \<noteq> n \<Longrightarrow> map_of (set_sheet n s wb) m = map_of wb m"
  by (induction wb) auto

lemma map_fst_set_sheet: "map fst (set_sheet n s wb) = map fst wb"
  by (induction wb) auto

lemma set_sheet_map:
  "distinct (map fst wb) \<Longrightarrow> map_of wb n = Some sh \<Longrightarrow>
   set_sheet n s wb = map (\<lambda>(m, t). (m, if m = n then s else t)) wb"
proof (induction wb)
  case Nil
  then show ?case by simp
next
  case (Cons p wb)
  obtain m t where p: "p = (m, t)" by (cases p)
  show ?case
  proof (cases "m = n")
    case True
    have "\<And>q. q \<in> set wb \<Longrightarrow> fst q \<noteq> n" using Cons.prems(1) p True by auto
    then have "map (\<lambda>(m, t). (m, if m = n then s else t)) wb = wb"
      by (intro map_idI) (auto simp: case_prod_beta prod_eq_iff)
    with True p show ?thesis by simp
  next
    case False
    with Cons p show ?thesis by simp
  qed
qed

lemma selected_sheets_Nil: "selected_sheets wb [] = []"
  by (simp add: selected_sheets_def)

lemma selected_sheets_Cons:
  "selected_sheets wb (n # names) =
     (case map_of wb n of Some sh \<Rightarrow> [(n, sh)] | None \<Rightarrow> []) @ selected_sheets wb names"
  by (simp add: selected_sheets_def)

lemma selected_sheets_cong:
  "(\<And>n. n \<in> set names \<Longrightarrow> map_of wb1 n = map_of wb2 n) \<Longrightarrow>
   selected_sheets wb1 names = selected_sheets wb2 names"
  unfolding selected_sheets_def by (intro arg_cong [where f = concat] map_cong) simp_all

lemma sheets_loop_spec:
  assumes step: "\<And>name sh st. Inv st \<Longrightarrow> f name sh st = (g sh, h name sh st) \<and> Inv (h name sh st)"
  shows "distinct (map fst wb) \<Longrightarrow> distinct names \<Longrightarrow> Inv st \<Longrightarrow>
    sheets_loop f names (wb, st) =
      (map (\<lambda>(n, sh). (n, if n \<in> set names then g sh else sh)) wb,
       foldl (\<lambda>st (n, sh). h n sh st) st (selected_sheets wb names))"
proof (induction names arbitrary: wb st)
  case Nil
  then show ?case by (simp add: selected_sheets_Nil case_prod_beta)
next
  case (Cons n names)
  show ?case
  proof (cases "map_of wb n")
    case None
    then have "\<And>q. q \<in> set wb \<Longrightarrow> fst q \<noteq> n"
      by (auto simp: map_of_eq_None_iff)
    then have "map (\<lambda>(m, sh). (m, if m \<in> set (n # names) then g sh else sh)) wb =
               map (\<lambda>(m, sh). (m, if m \<in> set names then g sh else sh)) wb"
      by (intro map_cong) (auto simp: case_prod_beta)
    with None Cons show ?thesis
      by (simp add: selected_sheets_Cons)
  next
    case (Some sh)
    let ?wb1 = "set_sheet n (g sh) wb" and ?st1 = "h n sh st"
    have f: "f n sh st = (g sh, ?st1)" and I1: "Inv ?st1"
      using step [OF Cons.prems(3)] by simp_all
    have d1: "distinct (map fst ?wb1)" using Cons.prems(1) by (simp add: map_fst_set_sheet)
    have n: "n \<notin> set names" and dn: "distinct names" using Cons.prems(2) by simp_all
    have wb1: "?wb1 = map (\<lambda>(m, t). (m, if m = n then g sh else t)) wb"
      using Cons.prems(1) Some by (rule set_sheet_map)
    have sel: "selected_sheets ?wb1 names = selected_sheets wb names"
    proof (rule selected_sheets_cong)
      fix m assume "m \<in> set names"
      with n have "m \<noteq> n" by auto
      then show "map_of ?wb1 m = map_of wb m" by (rule map_of_set_sheet)
    qed
    have "sheets_loop f (n # names) (wb, st) = sheets_loop f names (?wb1, ?st1)"
      using Some f by simp
    also have "\<dots> = (map (\<lambda>(m, t). (m, if m \<in> set names then g t else t)) ?wb1,
       foldl (\<lambda>st (n, sh). h n sh st) ?st1 (selected_sheets ?wb1 names))"
      using Cons.IH [OF d1 dn I1] .
    also have "map (\<lambda>(m, t). (m, if m \<in> set names then g t else t)) ?wb1 =
        map (\<lambda>(m, t). (m, if m \<in> set (n # names) then g t else t)) wb"
    proof -
      have "snd q = sh" if "q \<in> set wb" "fst q = n" for q
      proof -
        have "q = (n, snd q)" using that(2) by (simp add: prod_eq_iff)
        with that(1) have "(n, snd q) \<in> set wb" by simp
        then have "map_of wb n = Some (snd q)" using Cons.prems(1) by simp
        with Some show ?thesis by simp
      qed
      then show ?thesis unfolding wb1 using n
        by (auto simp: case_prod_beta)
    qed
    also have "foldl (\<lambda>st (n, sh). h n sh st) ?st1 (selected_sheets ?wb1 names) =
        foldl (\<lambda>st (n, sh). h n sh st) st (selected_sheets wb (n # names))"
      using Some by (simp add: sel selected_sheets_Cons)
    finally show ?thesis .
  qed
qed

lemma selected_sheets_all: "distinct (map fst wb) \<Longrightarrow> selected_sheets wb (map fst wb) = wb"
proof -
  assume d: "distinct (map fst wb)"
  have "map (\<lambda>n. case map_of wb n of Some sh \<Rightarrow> [(n, sh)] | None \<Rightarrow> []) (map fst wb) =
        map (\<lambda>p. [p]) wb"
    unfolding map_map
  proof (rule map_cong [OF refl])
    fix p assume "p \<in> set wb"
    then have "map_of wb (fst p) = Some (snd p)" using d by simp
    then show "((\<lambda>n. case map_of wb n of Some sh \<Rightarrow> [(n, sh)] | None \<Rightarrow> []) \<circ> fst) p = [p]"
      by simp
  qed
  then have "selected_sheets wb (map fst wb) = concat (map (\<lambda>p. [p]) wb)"
    by (simp only: selected_sheets_def)
  also have "\<dots> = wb" by (induction wb) simp_all
  finally show ?thesis .
qed

lemma foldl_run_jobs_concat:
  "foldl (\<lambda>st (n, sh). run_jobs body (J n sh) st) st wb =
     run_jobs body (concat (map (\<lambda>(n, sh). J n sh) wb)) st"
  by (induction wb arbitrary: st) (simp_all add: run_jobs_Nil run_jobs_append case_prod_beta)

lemma translate_excel_sheets_eq:
  assumes "distinct (map fst wb)"
  shows "translate_excel_sheets tr wb =
           (map (\<lambda>(n, sh). (n, final_sheet tr sh)) wb,
            run_jobs (translate_cell tr) (workbook_jobs wb) initial_state)"
proof -
  have step: "\<And>name sh st. cache_ok tr st \<Longrightarrow>
      process_sheet tr name sh st =
        (final_sheet tr sh, run_jobs (translate_cell tr) (sheet_jobs name sh) st) \<and>
      cache_ok tr (run_jobs (translate_cell tr) (sheet_jobs name sh) st)"
    by (simp add: process_sheet_eq run_jobs_translate_cell_ok)
  have "map (\<lambda>(n, sh). (n, if n \<in> set (map fst wb) then final_sheet tr sh else sh)) wb =
        map (\<lambda>(n, sh). (n, final_sheet tr sh)) wb"
    by (intro map_cong) (auto simp: case_prod_beta)
  then show ?thesis
    unfolding translate_excel_sheets_def workbook_jobs_def
    using sheets_loop_spec [where Inv = "cache_ok tr" and f = "process_sheet tr"
        and g = "final_sheet tr"
        and h = "\<lambda>name sh st. run_jobs (translate_cell tr) (sheet_jobs name sh) st",
        OF step assms assms cache_ok_initial]
    by (simp add: selected_sheets_all [OF assms] foldl_run_jobs_concat)
qed

lemma final_sheet_of_result:
  assumes "distinct (map fst wb)" and "(name, sh) \<in> set wb"
  shows "map_of (fst (translate_excel_sheets tr wb)) name = Some (final_sheet tr sh)"
proof -
  have "distinct (map fst (map (\<lambda>(n, sh). (n, final_sheet tr sh)) wb))"
    using assms(1) by (simp add: case_prod_beta comp_def)
  moreover have "(name, final_sheet tr sh) \<in> set (map (\<lambda>(n, sh). (n, final_sheet tr sh)) wb)"
    using assms(2) by force
  ultimately show ?thesis
    unfolding translate_excel_sheets_eq [OF assms(1)] fst_conv by (rule map_of_is_SomeI)
qed

lemma final_sheet_cells:
  "cells (final_sheet tr sh) x =
     (if visited sh x then expected_cell tr (cells sh x) else cells sh x)"
  by (simp add: final_sheet_def adjust_widths_eq walked_sheet_def)

lemma has_cjk_nonempty: "has_cjk v \<Longrightarrow> v \<noteq> []"
  by (auto simp: has_cjk_def)

lemma visited_iff:
  "visited sh x \<longleftrightarrow>
     1 \<le> fst x \<and> fst x \<le> sheet_max_row sh \<and> 1 \<le> snd x \<and> snd x \<le> sheet_max_column sh \<and>
     eligible (merged_cells (merged_ranges sh)) (merged_master_cells (merged_ranges sh)) x"
  by (simp add: visited_def set_grid_coords)

lemmas eval_visit = visited_iff eligible_def eval_regions





lemma split_lines_nonempty: "split_lines s \<noteq> []"
  by (induction s) auto

lemma foldl_max_Max: "foldl max (a::nat) xs = Max (set (a # xs))"
proof -
  have "(\<lambda>x s. max s x) = (max :: nat \<Rightarrow> nat \<Rightarrow> nat)"
    by (simp add: fun_eq_iff max.commute)
  then have "foldl max a xs = fold max xs a"
    by (simp add: foldl_conv_fold)
  also have "\<dots> = Max (set (a # xs))"
    by (rule Max.set_eq_fold [symmetric])
  finally show ?thesis .
qed

lemma cell_length_eq: "cell_length s = single_line_max s"
proof -
  have "set (map length (split_lines s)) \<noteq> {}"
    using split_lines_nonempty [of s] by simp
  then show ?thesis
    by (simp add: cell_length_def single_line_max_def foldl_max_Max)
qed

lemma measure_cell_eq:
  assumes "mc = merged_cells rs" and "mm = merged_master_cells rs"
  shows "measure_cell mc mm sh c a r =
     (case cvalue (cells sh (r, c)) of
        Text s \<Rightarrow> if eligible mc mm (r, c) then max a (single_line_max s) else a
      | _ \<Rightarrow> a)"
proof -
  have skip: "((r, c) \<in> mc \<and> (case mm (r, c) of Some m \<Rightarrow> fst m \<noteq> r \<or> snd m \<noteq> c | None \<Rightarrow> False))
      \<longleftrightarrow> \<not> eligible mc mm (r, c)"
  proof (cases "(r, c) \<in> mc")
    case True
    then have "(r, c) \<in> dom mm"
      using dom_merged_master_cells [of rs] assms by simp
    then obtain m where "mm (r, c) = Some m" by blast
    with True show ?thesis by (cases m) (auto simp: eligible_def)
  next
    case False
    then show ?thesis by (simp add: eligible_def)
  qed
  have empty: "single_line_max [] = 0" by (simp add: single_line_max_def)
  show ?thesis
  proof (cases "cvalue (cells sh (r, c))")
    case (Text s)
    then show ?thesis
      using skip empty
      by (cases "s = []") (auto simp: measure_cell_def Let_def cell_length_eq max_def)
  qed (simp_all add: measure_cell_def Let_def)
qed

lemma Max_insert_Max:
  assumes "finite X" and "finite Y"
  shows "Max (insert (Max (insert (a::nat) X)) Y) = Max (insert a (X \<union> Y))"
proof (cases "Y = {}")
  case True
  then show ?thesis by simp
next
  case False
  have "Max (insert a (X \<union> Y)) = Max (insert a X \<union> Y)" by simp
  also have "\<dots> = max (Max (insert a X)) (Max Y)"
    using assms False by (intro Max_Un) simp_all
  also have "\<dots> = Max (insert (Max (insert a X)) Y)"
    using assms False by simp
  finally show ?thesis by simp
qed

lemma measure_cell_row_texts:
  assumes "mc = merged_cells rs" and "mm = merged_master_cells rs"
  shows "measure_cell mc mm sh c a r =
           Max (set (a # map single_line_max (row_texts mc mm sh c r)))"
  by (cases "cvalue (cells sh (r, c))")
     (simp_all add: measure_cell_eq [OF assms] row_texts_def max_def)

lemma foldl_measure_cell:
  assumes "mc = merged_cells rs" and "mm = merged_master_cells rs"
  shows "foldl (measure_cell mc mm sh c) a rows =
     Max (set (a # map single_line_max (concat (map (row_texts mc mm sh c) rows))))"
proof (induction rows arbitrary: a)
  case Nil
  then show ?case by simp
next
  case (Cons r rows)
  let ?X = "set (map single_line_max (row_texts mc mm sh c r))"
  let ?Y = "set (map single_line_max (concat (map (row_texts mc mm sh c) rows)))"
  have "foldl (measure_cell mc mm sh c) a (r # rows) =
        foldl (measure_cell mc mm sh c) (measure_cell mc mm sh c a r) rows"
    by simp
  also have "\<dots> = Max (insert (measure_cell mc mm sh c a r) ?Y)"
    by (simp only: Cons.IH list.set)
  also have "\<dots> = Max (insert (Max (insert a ?X)) ?Y)"
    by (simp only: measure_cell_row_texts [OF assms] list.set)
  also have "\<dots> = Max (insert a (?X \<union> ?Y))"
    by (rule Max_insert_Max) simp_all
  also have "\<dots> = Max (set (a # map single_line_max
      (concat (map (row_texts mc mm sh c) (r # rows)))))"
    by simp
  finally show ?case .
qed

lemma column_max_length_eq:
  "column_max_length (merged_cells (merged_ranges sh)) (merged_master_cells (merged_ranges sh))
     sh c = longest_line sh c"
proof -
  have "eligible_texts sh c =
      concat (map (row_texts (merged_cells (merged_ranges sh))
        (merged_master_cells (merged_ranges sh)) sh c) [1..<Suc (sheet_max_row sh)])"
    unfolding eligible_texts_def row_texts_def ..
  then show ?thesis
    unfolding column_max_length_def longest_line_def
    by (simp only: foldl_measure_cell [OF refl refl])
qed

lemma longest_line_cong:
  assumes "cells sh1 = cells sh2" and "sheet_max_row sh1 = sheet_max_row sh2"
    and "merged_ranges sh1 = merged_ranges sh2"
  shows "longest_line sh1 c = longest_line sh2 c"
  by (simp add: longest_line_def eligible_texts_def assms)

lemma final_sheet_width:
  "column_width (final_sheet tr sh) c =
     (if 1 \<le> c \<and> c \<le> sheet_max_column sh \<and> 0 < longest_line (final_sheet tr sh) c
      then real (min (longest_line (final_sheet tr sh) c + 2) 50)
      else column_width sh c)"
proof -
  let ?w = "walked_sheet tr sh"
  have r: "merged_ranges ?w = merged_ranges sh" and m: "sheet_max_column ?w = sheet_max_column sh"
    and cw: "column_width ?w = column_width sh"
    by (simp_all add: walked_sheet_def)
  have f: "final_sheet tr sh =
      ?w\<lparr>column_width := new_width (merged_cells (merged_ranges ?w))
           (merged_master_cells (merged_ranges ?w)) ?w {1..sheet_max_column ?w}\<rparr>"
    by (simp only: final_sheet_def adjust_widths_eq r m)
  have l: "longest_line (final_sheet tr sh) c = longest_line ?w c"
    by (rule longest_line_cong) (simp_all add: f)
  have "column_width (final_sheet tr sh) c =
      new_width (merged_cells (merged_ranges ?w)) (merged_master_cells (merged_ranges ?w)) ?w
        {1..sheet_max_column ?w} c"
    by (subst f) simp
  then show ?thesis
    by (simp add: new_width_def column_max_length_eq l m cw)
qed

lemma final_sheet_fields:
  "sheet_max_row (final_sheet tr sh) = sheet_max_row sh"
  "sheet_max_column (final_sheet tr sh) = sheet_max_column sh"
  "merged_ranges (final_sheet tr sh) = merged_ranges sh"
  by (simp_all add: final_sheet_def adjust_widths_eq walked_sheet_def)

lemmas eval_final = longest_line_def eligible_texts_def final_sheet_fields final_sheet_cells
  eval_visit expected_cell_def expected_text_def strip_def isspace_def has_cjk_def
  single_line_max_def





lemma qualifies_iff: "qualifies w \<longleftrightarrow> (\<exists>v. w = Text v \<and> has_cjk v)"
  using has_cjk_nonempty by (cases w) auto











lemma value_at_result:
  assumes "distinct (map fst wb)" and "(name, sh) \<in> set wb"
  shows "value_at (fst (translate_excel_sheets tr wb)) name x =
           Some (cvalue (cells (final_sheet tr sh) x))"
  by (simp add: value_at_def final_sheet_of_result [OF assms])

lemma alignment_at_result:
  assumes "distinct (map fst wb)" and "(name, sh) \<in> set wb"
  shows "alignment_at (fst (translate_excel_sheets tr wb)) name x =
           Some (calignment (cells (final_sheet tr sh) x))"
  by (simp add: alignment_at_def final_sheet_of_result [OF assms])



lemma grid_coords_column_sheet: "grid_coords column_sheet = [(1, 1), (2, 1)]"
  by (simp add: grid_coords_def column_sheet_def upt_rec)


lemma strip_padded: "strip ([32] @ text_ceshi @ [32]) = text_ceshi"
  by (simp add: strip_def isspace_def text_ceshi_def)

lemma strip_ceshi: "strip text_ceshi = text_ceshi"
  by (simp add: strip_def isspace_def text_ceshi_def)

lemma has_cjk_ceshi: "has_cjk text_ceshi" "has_cjk ([32] @ text_ceshi @ [32])"
  by (simp_all add: has_cjk_def text_ceshi_def)


lemma visited_column_sheet: "visited column_sheet (1, 1)" "visited column_sheet (2, 1)"
  by (simp_all add: eval_visit column_sheet_def)
















lemma eligible_no_ranges: "eligible (merged_cells []) (merged_master_cells []) x"
  by (simp add: eligible_def merged_cells_Nil)

lemma selected_column_run:
  "translate_selected_sheets tr column_workbook [''Sheet1''] =
     (let r1 = translate_cell_selected tr (''Sheet1'', (1, 1))
                 (text_cell ([32] @ text_ceshi @ [32])) initial_state;
          r2 = translate_cell_selected tr (''Sheet1'', (2, 1)) (text_cell text_ceshi) (snd r1)
      in ([(''Sheet1'',
            column_sheet\<lparr>cells := ((cells column_sheet)((1, 1) := fst r1))((2, 1) := fst r2)\<rparr>)],
          snd r2))"
proof -
  have g: "grid_coords column_sheet = [(1, 1), (2, 1)]" by (rule grid_coords_column_sheet)
  have m: "merged_ranges column_sheet = []" by (simp add: column_sheet_def)
  have c: "cells column_sheet (1, 1) = text_cell ([32] @ text_ceshi @ [32])"
    "cells column_sheet (2, 1) = text_cell text_ceshi"
    by (simp_all add: column_sheet_def)
  show ?thesis
    using c
    by (simp add: translate_selected_sheets_def column_workbook_def process_sheet_selected_def
        cell_walker_eq g m walk_coords_def visit_cell_eq eligible_no_ranges Let_def
        split_beta)
qed

lemma selected_column_ok:
  "value_at (fst (translate_selected_sheets example_translator column_workbook [''Sheet1'']))
     ''Sheet1'' (1, 1) = Some (Text (text_Test @ [10] @ text_ceshi)) \<and>
   alignment_at (fst (translate_selected_sheets example_translator column_workbook [''Sheet1'']))
     ''Sheet1'' (1, 1) = Some wrap_only \<and>
   value_at (fst (translate_selected_sheets example_translator column_workbook [''Sheet1'']))
     ''Sheet1'' (2, 1) = Some (Text (text_Test @ [10] @ text_ceshi)) \<and>
   alignment_at (fst (translate_selected_sheets example_translator column_workbook [''Sheet1'']))
     ''Sheet1'' (2, 1) = Some (Alignment None None)"
  using has_cjk_ceshi strip_padded strip_ceshi
  by (simp add: selected_column_run value_at_def alignment_at_def Let_def
      translate_cell_selected_def text_cell_def initial_state_def example_translator_def
      text_ceshi_def)

lemma selected_column_fail:
  "value_at (fst (translate_selected_sheets failing_translator column_workbook [''Sheet1'']))
     ''Sheet1'' (1, 1) = Some (Text ([32] @ text_ceshi @ [32])) \<and>
   alignment_at (fst (translate_selected_sheets failing_translator column_workbook [''Sheet1'']))
     ''Sheet1'' (1, 1) = Some (Alignment None None)"
  using has_cjk_ceshi strip_padded strip_ceshi
  by (simp add: selected_column_run value_at_def alignment_at_def Let_def
      translate_cell_selected_def text_cell_def initial_state_def failing_translator_def
      text_ceshi_def)

lemma all_sheets_column_fail:
  "value_at (fst (translate_excel_sheets failing_translator column_workbook)) ''Sheet1'' (1, 1)
     = Some (Text text_ceshi) \<and>
   alignment_at (fst (translate_excel_sheets failing_translator column_workbook)) ''Sheet1'' (1, 1)
     = Some wrap_top"
proof -
  have d: "distinct (map fst column_workbook)"
    and m: "(''Sheet1'', column_sheet) \<in> set column_workbook"
    by (simp_all add: column_workbook_def)
  have c: "cells column_sheet (1, 1) = text_cell ([32] @ text_ceshi @ [32])"
    by (simp add: column_sheet_def)
  have e: "expected_cell failing_translator (text_cell ([32] @ text_ceshi @ [32])) =
      \<lparr>cvalue = Text text_ceshi, calignment = wrap_top\<rparr>"
    using has_cjk_ceshi(2) strip_padded
    by (simp add: expected_cell_def expected_text_def text_cell_def failing_translator_def)
  show ?thesis
    using visited_column_sheet(1) c e
    by (simp add: value_at_result [OF d m] alignment_at_result [OF d m] final_sheet_cells)
qed

lemma original_column_cells:
  "value_at column_workbook ''Sheet1'' (1, 1) = Some (Text ([32] @ text_ceshi @ [32]))"
  "alignment_at column_workbook ''Sheet1'' (1, 1) = Some (Alignment None None)"
  "value_at column_workbook ''Sheet1'' (2, 1) = Some (Text text_ceshi)"
  "alignment_at column_workbook ''Sheet1'' (2, 1) = Some (Alignment None None)"
  by (simp_all add: value_at_def alignment_at_def column_workbook_def column_sheet_def
      text_cell_def)

lemma final_sheet_assigned:
  assumes "visited sh x" and "cvalue (cells sh x) = Text v" and "has_cjk v"
  shows "cells (final_sheet tr sh) x =
           (cells sh x)\<lparr>cvalue := Text (expected_text tr v), calignment := wrap_top\<rparr>"
  using assms has_cjk_nonempty [OF assms(3)]
  by (simp add: final_sheet_cells expected_cell_def)

lemma final_sheet_untouched:
  assumes "\<not> (visited sh x \<and> qualifies (cvalue (cells sh x)))"
  shows "cells (final_sheet tr sh) x = cells sh x"
  using assms
  by (cases "cvalue (cells sh x)") (auto simp: final_sheet_cells expected_cell_def)

text \<open>
  In \<^verbatim>\<open>translate_excel_sheets\<close> every cell whose value differs after the run has the
  alignment with \<^verbatim>\<open>wrapText=True\<close> and \<^verbatim>\<open>vertical='top'\<close>.
\<close>

lemma all_sheets_mutated_cells_wrap_top:
  assumes "distinct (map fst wb)" and "(name, sh) \<in> set wb"
    and "value_at (fst (translate_excel_sheets tr wb)) name x \<noteq> Some (cvalue (cells sh x))"
  shows "alignment_at (fst (translate_excel_sheets tr wb)) name x = Some wrap_top"
proof -
  have "visited sh x \<and> qualifies (cvalue (cells sh x))"
  proof (rule ccontr)
    assume "\<not> ?thesis"
    then have "cells (final_sheet tr sh) x = cells sh x" by (rule final_sheet_untouched)
    with assms(3) show False by (simp add: value_at_result [OF assms(1,2)])
  qed
  then obtain v where "visited sh x" "cvalue (cells sh x) = Text v" "has_cjk v"
    by (auto simp: qualifies_iff)
  then show ?thesis
    by (simp add: alignment_at_result [OF assms(1,2)] final_sheet_assigned)
qed

text \<open>
  In \<^verbatim>\<open>translate_excel_sheets\<close> a cell whose translation fails ends with the stripped text
  and the wrap and top alignment.
\<close>

lemma all_sheets_failed_cell:
  assumes "distinct (map fst wb)" and "(name, sh) \<in> set wb" and "visited sh x"
    and "cvalue (cells sh x) = Text v" and "has_cjk v" and "tr (strip v) = None"
  shows "value_at (fst (translate_excel_sheets tr wb)) name x = Some (Text (strip v)) \<and>
         alignment_at (fst (translate_excel_sheets tr wb)) name x = Some wrap_top"
  using assms(6)
  by (simp add: value_at_result [OF assms(1,2)] alignment_at_result [OF assms(1,2)]
      final_sheet_assigned [OF assms(3,4,5)] expected_text_def)













section \<open>The claims\<close>

subsection \<open>The region index\<close>

text \<open>
  C10. For every list of merged ranges, the set \<^verbatim>\<open>merged_cells\<close> built by the first loop
  equals the key set of the dictionary \<^verbatim>\<open>merged_master_cells\<close> built by the second loop.
  Hence a coordinate found in the set always has a dictionary entry: resolving a coordinate
  never takes the \<^verbatim>\<open>else: continue\<close> branch of a covered coordinate without entry.
\<close>

theorem C10_covered_set_is_key_set:
  "merged_cells rs = dom (merged_master_cells rs) \<and>
   resolve (merged_cells rs) (merged_master_cells rs) x \<noteq> Skip_no_entry"
  by (auto simp: resolve_def dom_merged_master_cells [symmetric] split: option.splits)

theorem C10_covered_set_is_key_set_witness:
  "merged_cells [range_A1_B2] = dom (merged_master_cells [range_A1_B2]) \<and>
   resolve (merged_cells [range_A1_B2]) (merged_master_cells [range_A1_B2]) (1, 2)
     = Skip_non_master"
proof -
  have "resolve (merged_cells [range_A1_B2]) (merged_master_cells [range_A1_B2]) (1, 2)
     = Skip_non_master"
    by (simp add: example_ranges eval_regions)
  then show ?thesis
    using C10_covered_set_is_key_set [of "[range_A1_B2]" "(1, 2)"] by blast
qed

text \<open>
  C4. For every list of pairwise non-overlapping merged ranges, every covered coordinate
  lies in a range of the list, the dictionary maps it to the top-left coordinate
  \<^verbatim>\<open>(min_row, min_col)\<close> of every (hence the) range containing it, and the coordinate it is
  mapped to is mapped to itself: looking the master up again gives the master.
\<close>

theorem C4_index_maps_to_top_left:
  assumes "non_overlapping rs" and "x \<in> merged_cells rs"
  shows "(\<exists>m\<in>set rs. x \<in> set (range_coords m)) \<and>
         (\<forall>m\<in>set rs. x \<in> set (range_coords m) \<longrightarrow>
            merged_master_cells rs x = Some (min_row m, min_col m)) \<and>
         (\<exists>y. merged_master_cells rs x = Some y \<and> merged_master_cells rs y = Some y)"
proof -
  from assms(2) obtain m where m: "m \<in> set rs" "x \<in> set (range_coords m)"
    by (auto simp: merged_cells_Union)
  have all: "\<forall>q\<in>set rs. x \<in> set (range_coords q) \<longrightarrow>
      merged_master_cells rs x = Some (min_row q, min_col q)"
    using non_overlapping_unique_master [OF assms(1)] by (auto simp: master_of_range_def)
  have "merged_master_cells rs (master_of_range m) = Some (master_of_range m)"
    using non_overlapping_unique_master [OF assms(1) m(1) master_in_range [OF m(2)]] .
  moreover have "merged_master_cells rs x = Some (master_of_range m)"
    using non_overlapping_unique_master [OF assms(1) m] .
  ultimately show ?thesis using m all by auto
qed

theorem C4_index_maps_to_top_left_witness:
  "non_overlapping [range_A1_B2, range_C1_D1] \<and>
   (2, 2) \<in> merged_cells [range_A1_B2, range_C1_D1] \<and>
   merged_master_cells [range_A1_B2, range_C1_D1] (2, 2) = Some (1, 1) \<and>
   (\<exists>y. merged_master_cells [range_A1_B2, range_C1_D1] (2, 2) = Some y \<and>
        merged_master_cells [range_A1_B2, range_C1_D1] y = Some y)"
proof -
  have h1: "non_overlapping [range_A1_B2, range_C1_D1]"
    by (simp add: example_ranges eval_regions)
  have h2: "(2, 2) \<in> merged_cells [range_A1_B2, range_C1_D1]"
    by (simp add: example_ranges eval_regions)
  have e: "merged_master_cells [range_A1_B2, range_C1_D1] (2, 2) = Some (1, 1)"
    by (simp add: example_ranges eval_regions)
  show ?thesis using h1 h2 e C4_index_maps_to_top_left [OF h1 h2] by blast
qed

text \<open>
  C5. Where two ranges \<open>a\<close> (earlier in the list) and \<open>b\<close> (later) share a coordinate
  \<open>x\<close>, and \<open>b\<close> is the last range of the list that contains \<open>x\<close>, the dictionary maps
  \<open>x\<close> to the top-left coordinate of \<open>b\<close>: the later assignment overwrites the earlier
  one. It does so for the shared coordinates only: a coordinate of \<open>a\<close> that lies neither
  in \<open>b\<close> nor in any other later range keeps the top-left coordinate of \<open>a\<close>.
\<close>

theorem C5_later_region_overwrites:
  assumes "x \<in> set (range_coords a)" and "x \<in> set (range_coords b)"
    and "\<forall>q\<in>set post. x \<notin> set (range_coords q)"
  shows "merged_master_cells (pre @ a # mid @ b # post) x = Some (min_row b, min_col b) \<and>
         (\<forall>y\<in>set (range_coords a).
            y \<notin> set (range_coords b) \<and> (\<forall>q\<in>set (mid @ post). y \<notin> set (range_coords q)) \<longrightarrow>
            merged_master_cells (pre @ a # mid @ b # post) y = Some (min_row a, min_col a))"
proof -
  have "merged_master_cells ((pre @ a # mid) @ b # post) x = Some (master_of_range b)"
    using assms(2,3) by (rule merged_master_cells_last_wins)
  moreover have "merged_master_cells (pre @ a # (mid @ b # post)) y = Some (master_of_range a)"
    if "y \<in> set (range_coords a)" "y \<notin> set (range_coords b)"
       "\<forall>q\<in>set (mid @ post). y \<notin> set (range_coords q)" for y
    using that by (intro merged_master_cells_last_wins) auto
  ultimately show ?thesis by (auto simp: master_of_range_def)
qed

theorem C5_later_region_overwrites_witness:
  "(2, 2) \<in> set (range_coords range_A1_B2) \<and> (2, 2) \<in> set (range_coords range_B2_C3) \<and>
   (1, 1) \<in> set (range_coords range_A1_B2) \<and> (1, 1) \<notin> set (range_coords range_B2_C3) \<and>
   merged_master_cells [range_A1_B2, range_B2_C3] (2, 2) = Some (2, 2) \<and>
   merged_master_cells [range_A1_B2, range_B2_C3] (1, 1) = Some (1, 1) \<and>
   merged_master_cells [range_B2_C3, range_A1_B2] (2, 2) = Some (1, 1)"
proof -
  have h1: "(2, 2) \<in> set (range_coords range_A1_B2)"
    and h2: "(2, 2) \<in> set (range_coords range_B2_C3)"
    and h3: "(1, 1) \<in> set (range_coords range_A1_B2)"
    and h4: "(1, 1) \<notin> set (range_coords range_B2_C3)"
    by (simp_all add: example_ranges eval_regions)
  have h5: "\<forall>q\<in>set ([] :: merged_range list). (2, 2) \<notin> set (range_coords q)"
    by simp
  have a: "merged_master_cells [range_A1_B2, range_B2_C3] (2, 2) = Some (2, 2)"
    and b: "merged_master_cells [range_A1_B2, range_B2_C3] (1, 1) = Some (1, 1)"
    using C5_later_region_overwrites [OF h1 h2 h5, of "[]" "[]"] h3 h4
    by (simp_all add: example_ranges)
  have c: "merged_master_cells [range_B2_C3, range_A1_B2] (2, 2) = Some (1, 1)"
    using C5_later_region_overwrites [OF h2 h1 h5, of "[]" "[]"]
    by (simp add: example_ranges)
  show ?thesis using h1 h2 h3 h4 a b c by blast
qed

subsection \<open>The traversal of \<^verbatim>\<open>translate_excel_sheets\<close>\<close>



text \<open>
  C6. Let \<open>sh\<close> be a sheet of the workbook and \<open>sh'\<close> the sheet of that name after
  \<^verbatim>\<open>translate_excel_sheets\<close>, and let \<open>L\<close> be the longest single line over the texts of
  the cells of column \<open>c\<close> that the traversal works on, measured on \<open>sh'\<close>, that is, after
  the translation pass. For every column \<open>c\<close> of the grid, the width of \<open>c\<close> in \<open>sh'\<close> is
  \<open>min (L + 2) 50\<close> if \<open>L > 0\<close>, and the width it had in \<open>sh\<close> if \<open>L = 0\<close>.
\<close>

theorem C6_column_width_law:
  assumes "distinct (map fst wb)" and "(name, sh) \<in> set wb"
    and "map_of (fst (translate_excel_sheets tr wb)) name = Some sh'"
    and "1 \<le> c" and "c \<le> sheet_max_column sh"
  shows "column_width sh' c =
           (if 0 < longest_line sh' c then real (min (longest_line sh' c + 2) 50)
            else column_width sh c)"
proof -
  have "sh' = final_sheet tr sh"
    using final_sheet_of_result [OF assms(1,2), of tr] assms(3) by simp
  then show ?thesis using assms(4,5) by (simp add: final_sheet_width)
qed

theorem C6_column_width_law_witness:
  "distinct (map fst example_workbook) \<and> (''Sheet1'', example_sheet) \<in> set example_workbook \<and>
   (1::nat) \<le> 1 \<and> 2 \<le> sheet_max_column example_sheet \<and>
   (\<exists>sh'. map_of (fst (translate_excel_sheets example_translator example_workbook)) ''Sheet1''
            = Some sh' \<and>
          longest_line sh' 1 = 4 \<and> column_width sh' 1 = 6 \<and>
          longest_line sh' 2 = 0 \<and> column_width sh' 2 = 13)"
proof -
  have d: "distinct (map fst example_workbook)"
    and m: "(''Sheet1'', example_sheet) \<in> set example_workbook"
    by (simp_all add: example_workbook_def)
  have c: "(1::nat) \<le> 1" "(1::nat) \<le> 2" "1 \<le> sheet_max_column example_sheet"
    "2 \<le> sheet_max_column example_sheet"
    by (simp_all add: example_sheet_def)
  define sh' where "sh' = final_sheet example_translator example_sheet"
  have s: "map_of (fst (translate_excel_sheets example_translator example_workbook)) ''Sheet1''
      = Some sh'"
    unfolding sh'_def by (rule final_sheet_of_result [OF d m])
  have l1: "longest_line sh' 1 = 4"
    unfolding sh'_def
    by (simp add: eval_final example_inputs example_ranges)
  have l2: "longest_line sh' 2 = 0"
    unfolding sh'_def
    by (simp add: eval_final example_inputs example_ranges)
  have w1: "column_width sh' 1 = 6"
    using C6_column_width_law [OF d m s c(1) c(3)] l1 by simp
  have w2: "column_width sh' 2 = 13"
    using C6_column_width_law [OF d m s c(2) c(4)] l2 by (simp add: example_sheet_def)
  show ?thesis using d m c s l1 l2 w1 w2 by blast
qed








subsection \<open>Failed translations and cell presentation\<close>

text \<open>
  C1. The claim fails on \<^verbatim>\<open>translate_excel_sheets\<close>. On the one-column sheet whose cell A1
  holds the two ideographs between two spaces, with a translator that fails, the run of
  \<^verbatim>\<open>translate_excel_sheets\<close> completes, but A1 then holds the stripped text (the
  \<^verbatim>\<open>except\<close> branch of \<^verbatim>\<open>translate_text\<close> returns the rebound variable \<^verbatim>\<open>text\<close> and the
  caller assigns it) and its alignment has been replaced. \<^verbatim>\<open>translate_selected_sheets\<close> on
  the same input leaves both the value and the alignment as they were.
\<close>

theorem C1_failed_translation_rewrites_cell:
  "failing_translator (strip ([32] @ text_ceshi @ [32])) = None \<and>
   value_at column_workbook ''Sheet1'' (1, 1) = Some (Text ([32] @ text_ceshi @ [32])) \<and>
   alignment_at column_workbook ''Sheet1'' (1, 1) = Some (Alignment None None) \<and>
   value_at (fst (translate_excel_sheets failing_translator column_workbook)) ''Sheet1'' (1, 1)
     = Some (Text text_ceshi) \<and>
   alignment_at (fst (translate_excel_sheets failing_translator column_workbook)) ''Sheet1'' (1, 1)
     = Some wrap_top \<and>
   value_at (fst (translate_selected_sheets failing_translator column_workbook [''Sheet1'']))
     ''Sheet1'' (1, 1) = Some (Text ([32] @ text_ceshi @ [32])) \<and>
   alignment_at (fst (translate_selected_sheets failing_translator column_workbook [''Sheet1'']))
     ''Sheet1'' (1, 1) = Some (Alignment None None)"
  using all_sheets_column_fail selected_column_fail original_column_cells
  by (simp add: failing_translator_def)

text \<open>
  C8. The claim holds for \<^verbatim>\<open>translate_excel_sheets\<close>
  (lemma \<open>all_sheets_mutated_cells_wrap_top\<close>) and fails on \<^verbatim>\<open>translate_selected_sheets\<close>.
  On the one-column sheet whose cells A1 and A2 hold texts that strip to the same two
  ideographs, \<^verbatim>\<open>translate_selected_sheets\<close> changes both values; A1, translated by a call of
  the translator, gets \<^verbatim>\<open>Alignment(wrapText=True)\<close> without the vertical alignment, and A2,
  served from the cache, keeps the alignment it had.
\<close>

theorem C8_selected_sheets_alignment:
  "value_at column_workbook ''Sheet1'' (1, 1) = Some (Text ([32] @ text_ceshi @ [32])) \<and>
   value_at column_workbook ''Sheet1'' (2, 1) = Some (Text text_ceshi) \<and>
   alignment_at column_workbook ''Sheet1'' (2, 1) = Some (Alignment None None) \<and>
   value_at (fst (translate_selected_sheets example_translator column_workbook [''Sheet1'']))
     ''Sheet1'' (1, 1) = Some (Text (text_Test @ [10] @ text_ceshi)) \<and>
   alignment_at (fst (translate_selected_sheets example_translator column_workbook [''Sheet1'']))
     ''Sheet1'' (1, 1) = Some wrap_only \<and>
   value_at (fst (translate_selected_sheets example_translator column_workbook [''Sheet1'']))
     ''Sheet1'' (2, 1) = Some (Text (text_Test @ [10] @ text_ceshi)) \<and>
   alignment_at (fst (translate_selected_sheets example_translator column_workbook [''Sheet1'']))
     ''Sheet1'' (2, 1) = Some (Alignment None None) \<and>
   wrap_only \<noteq> wrap_top \<and> Alignment None None \<noteq> wrap_top"
  using selected_column_ok original_column_cells
  by (simp add: wrap_only_def wrap_top_def)

subsection \<open>The two entry operations compared\<close>




end
